theory Spec2Isabelle
  imports Complex_Main
begin

section \<open>JavaScript values used by the virtual list\<close>

text \<open>
  The component (\<^verbatim>\<open>src/app/containers/VList/index.tsx\<close>) computes with JavaScript
  numbers. A finite number is modelled as an exact rational, so that props, scroll
  offsets and indices need not be integers; the rounding of doubles is not modelled.
  What matters beyond that is \<^verbatim>\<open>undefined\<close>, which an array read past its end or at
  a non-integer index returns, and \<^verbatim>\<open>NaN\<close>, which any arithmetic on \<^verbatim>\<open>undefined\<close>
  produces and which makes every comparison false.
\<close>

datatype jsval = Undefined | NaN | Num rat

fun js_add :: "jsval \<Rightarrow> jsval \<Rightarrow> jsval" where
  "js_add (Num a) (Num b) = Num (a + b)"
| "js_add _ _ = NaN"

fun js_lt :: "jsval \<Rightarrow> jsval \<Rightarrow> bool" where
  "js_lt (Num a) (Num b) = (a < b)"
| "js_lt _ _ = False"

fun js_gt :: "jsval \<Rightarrow> jsval \<Rightarrow> bool" where
  "js_gt (Num a) (Num b) = (a > b)"
| "js_gt _ _ = False"

fun js_le :: "jsval \<Rightarrow> jsval \<Rightarrow> bool" where
  "js_le (Num a) (Num b) = (a \<le> b)"
| "js_le _ _ = False"

text \<open>An array index is a non-negative integer below the length.\<close>

definition is_index :: "rat \<Rightarrow> nat \<Rightarrow> bool" where
  "is_index i n \<longleftrightarrow> i = of_int \<lfloor>i\<rfloor> \<and> 0 \<le> i \<and> i < of_nat n"

text \<open>\<^verbatim>\<open>arr[i]\<close>: anything that is not an index of the array reads \<^verbatim>\<open>undefined\<close>.\<close>

definition array_get :: "jsval list \<Rightarrow> rat \<Rightarrow> jsval" where
  "array_get xs i = (if is_index i (length xs) then xs ! nat \<lfloor>i\<rfloor> else Undefined)"

text \<open>\<^verbatim>\<open>arr[i] = v\<close>: a write past the end extends the array, leaving holes.\<close>

definition array_set :: "jsval list \<Rightarrow> nat \<Rightarrow> jsval \<Rightarrow> jsval list" where
  "array_set xs i v =
     (if i < length xs then xs[i := v]
      else xs @ replicate (i - length xs) Undefined @ [v])"

text \<open>
  \<^verbatim>\<open>Array.from({ length: n }, (_, i) => f(i))\<close>: the length is truncated to an integer,
  and a negative length gives the empty array.
\<close>

definition array_from :: "rat \<Rightarrow> (rat \<Rightarrow> 'a) \<Rightarrow> 'a list" where
  "array_from n f = map (\<lambda>i. f (of_nat i)) [0..<nat \<lfloor>n\<rfloor>]"

section \<open>Data model\<close>

record Item =
  item_id :: string
  item_content :: string

record VirtualListProps =
  data :: "Item list"
  containerHeight :: rat
  estimatedItemHeight :: rat
  bufferCount :: rat

text \<open>
  The component's hooks: \<^verbatim>\<open>scrollTop\<close>, \<^verbatim>\<open>height\<close> (the spacer) and \<^verbatim>\<open>renderList\<close>
  are \<^verbatim>\<open>useState\<close> cells, \<^verbatim>\<open>itemHeights\<close> is the \<^verbatim>\<open>useRef\<close> height store.
\<close>

record VirtualListState =
  scrollTop :: rat
  itemHeights :: "jsval list"
  height :: jsval
  renderList :: "rat list"

definition initialState :: VirtualListState where
  "initialState = \<lparr>scrollTop = 0, itemHeights = [], height = Num 0, renderList = []\<rparr>"

section \<open>Operations\<close>

text \<open>Lines 69-71: every entry of the store is reset to the estimate.\<close>

definition initHeights :: "VirtualListProps \<Rightarrow> VirtualListState \<Rightarrow> VirtualListState" where
  "initHeights p s =
     s\<lparr>itemHeights := replicate (length (data p)) (Num (estimatedItemHeight p))\<rparr>"

text \<open>Lines 74-82: \<^verbatim>\<open>while (idx < index) { h += itemHeights.current[idx]; idx++ }\<close>.\<close>

function getCumulativeHeight_loop :: "jsval list \<Rightarrow> rat \<Rightarrow> jsval \<Rightarrow> nat \<Rightarrow> jsval" where
  "getCumulativeHeight_loop hs index h idx =
     (if of_nat idx < index
      then getCumulativeHeight_loop hs index (js_add h (array_get hs (of_nat idx))) (Suc idx)
      else h)"
  by pat_completeness auto
termination
proof (relation "measure (\<lambda>(hs, index, h, idx). nat \<lceil>index\<rceil> - idx)", goal_cases)
  case 1
  show ?case by simp
next
  case (2 hs index h idx)
  then have "int idx < \<lceil>index\<rceil>" by (simp add: less_ceiling_iff)
  then show ?case by simp
qed

declare getCumulativeHeight_loop.simps [simp del]

definition getCumulativeHeight :: "jsval list \<Rightarrow> rat \<Rightarrow> jsval" where
  "getCumulativeHeight hs index = getCumulativeHeight_loop hs index (Num 0) 0"

text \<open>
  Lines 85-98. The loop state is the pair \<^verbatim>\<open>(sum, idx)\<close>; guard and body are named so
  that iterations can be counted. \<^verbatim>\<open>idx\<close> starts at 0 and is incremented once per
  iteration, so its final value is the number of iterations performed.
\<close>

fun findStartIndex_cond :: "rat \<Rightarrow> jsval \<times> nat \<Rightarrow> bool" where
  "findStartIndex_cond scrollPosition (sm, idx) = js_lt sm (Num scrollPosition)"

fun findStartIndex_body :: "jsval list \<Rightarrow> jsval \<times> nat \<Rightarrow> jsval \<times> nat" where
  "findStartIndex_body hs (sm, idx) = (js_add sm (array_get hs (of_nat idx)), Suc idx)"

function findStartIndex_loop :: "jsval list \<Rightarrow> rat \<Rightarrow> jsval \<times> nat \<Rightarrow> jsval \<times> nat" where
  "findStartIndex_loop hs scrollPosition st =
     (if findStartIndex_cond scrollPosition st
      then findStartIndex_loop hs scrollPosition (findStartIndex_body hs st)
      else st)"
  by pat_completeness auto
termination
proof (relation "measure (\<lambda>(hs, sp, sm, idx).
          case sm of Num _ \<Rightarrow> Suc (length hs - idx) | _ \<Rightarrow> 0)", goal_cases)
  case 1
  show ?case by simp
next
  case (2 hs sp st)
  obtain sm idx where st: "st = (sm, idx)" by (cases st)
  from 2 st obtain a where sm: "sm = Num a"
    by (cases sm) auto
  show ?case
  proof (cases "array_get hs (of_nat idx)")
    case (Num b)
    then have "idx < length hs"
      by (auto simp: array_get_def is_index_def split: if_splits)
    with Num show ?thesis by (simp add: st sm)
  qed (simp_all add: st sm)
qed

declare findStartIndex_loop.simps [simp del]

definition findStartIndex :: "jsval list \<Rightarrow> rat \<Rightarrow> rat \<Rightarrow> rat" where
  "findStartIndex hs bufferCnt scrollPosition =
     max 0 (of_nat (snd (findStartIndex_loop hs scrollPosition (Num 0, 0))) - bufferCnt)"

text \<open>
  Lines 101-115. \<^verbatim>\<open>n\<close> is \<^verbatim>\<open>data.length\<close>, \<^verbatim>\<open>limit\<close> is
  \<^verbatim>\<open>containerHeight + bufferCount * estimatedItemHeight\<close>.
\<close>

function findEndIndex_loop ::
  "jsval list \<Rightarrow> nat \<Rightarrow> rat \<Rightarrow> rat \<Rightarrow> jsval \<Rightarrow> rat \<Rightarrow> rat" where
  "findEndIndex_loop hs n limit i totalHeight endIndex =
     (if i < of_nat n
      then (let totalHeight' = js_add totalHeight (array_get hs i) in
            if js_gt totalHeight' (Num limit) then i
            else findEndIndex_loop hs n limit (i + 1) totalHeight' i)
      else endIndex)"
  by pat_completeness auto
termination
proof (relation "measure (\<lambda>(hs, n, limit, i, totalHeight, endIndex). nat \<lceil>of_nat n - i\<rceil>)",
    goal_cases)
  case 1
  show ?case by simp
next
  case (2 hs n limit i totalHeight endIndex x)
  have "of_nat n - (i + 1) = (of_nat n - i) - 1" by simp
  then have "\<lceil>of_nat n - (i + 1)\<rceil> = \<lceil>of_nat n - i\<rceil> - 1"
    by (simp only: ceiling_diff_one)
  moreover from 2 have "0 < \<lceil>of_nat n - i\<rceil>" by simp
  ultimately show ?case by simp
qed

declare findEndIndex_loop.simps [simp del]

definition findEndIndex :: "VirtualListProps \<Rightarrow> jsval list \<Rightarrow> rat \<Rightarrow> rat" where
  "findEndIndex p hs startIndex =
     min (of_nat (length (data p)) - 1)
         (findEndIndex_loop hs (length (data p))
            (containerHeight p + bufferCount p * estimatedItemHeight p)
            startIndex (Num 0) startIndex
          + bufferCount p)"

text \<open>Lines 124-133: the effect that resolves the window and stores the indices to render.\<close>

definition renderListEffect :: "VirtualListProps \<Rightarrow> VirtualListState \<Rightarrow> VirtualListState" where
  "renderListEffect p s =
     (let startIndex = findStartIndex (itemHeights s) (bufferCount p) (scrollTop s);
          endIndex = findEndIndex p (itemHeights s) startIndex;
          idxArr = array_from (endIndex - startIndex) (\<lambda>i. i + startIndex)
      in s\<lparr>renderList := idxArr\<rparr>)"

text \<open>Lines 135-138: the effect that sets the spacer height; it runs when \<^verbatim>\<open>data.length\<close> changes.\<close>

definition heightEffect :: "VirtualListProps \<Rightarrow> VirtualListState \<Rightarrow> VirtualListState" where
  "heightEffect p s =
     s\<lparr>height := (if length (data p) \<noteq> 0
                   then getCumulativeHeight (itemHeights s) (of_nat (length (data p)) - 1)
                   else Num 0)\<rparr>"

text \<open>Lines 140-142: \<^verbatim>\<open>itemHeights.current[idx] = h\<close>, nothing else.\<close>

definition updateH :: "VirtualListState \<Rightarrow> nat \<Rightarrow> rat \<Rightarrow> VirtualListState" where
  "updateH s idx h = s\<lparr>itemHeights := array_set (itemHeights s) idx (Num h)\<rparr>"

text \<open>A sequence of measurement reports, applied in order.\<close>

fun updateH_seq :: "VirtualListState \<Rightarrow> (nat \<times> rat) list \<Rightarrow> VirtualListState" where
  "updateH_seq s [] = s"
| "updateH_seq s ((idx, h) # ws) = updateH_seq (updateH s idx h) ws"

text \<open>Lines 118-122 followed by the re-run of the window effect, whose dependency changed.\<close>

definition handleScroll :: "VirtualListProps \<Rightarrow> VirtualListState \<Rightarrow> rat \<Rightarrow> VirtualListState" where
  "handleScroll p s t = renderListEffect p (s\<lparr>scrollTop := t\<rparr>)"

text \<open>The three effects run in declaration order on mount.\<close>

definition mount :: "VirtualListProps \<Rightarrow> VirtualListState" where
  "mount p = heightEffect p (renderListEffect p (initHeights p initialState))"

section \<open>Rendering\<close>

text \<open>
  Lines 16-54 and 158-169. A cell is keyed by the item's id and placed at
  \<^verbatim>\<open>idx === 0 ? 0 : getHeightByIdx(idx)\<close>. When \<^verbatim>\<open>idx\<close> is not an index of
  \<^verbatim>\<open>data\<close> (outside it, or not an integer), \<^verbatim>\<open>data[idx]\<close> is \<^verbatim>\<open>undefined\<close> and
  reading its \<^verbatim>\<open>id\<close> throws a \<^verbatim>\<open>TypeError\<close>.
\<close>

datatype js_error = TypeError

record Cell =
  cell_key :: string
  cell_idx :: rat
  cell_top :: jsval

record View =
  spacer :: jsval
  cells :: "Cell list"

definition DynamicItem :: "jsval list \<Rightarrow> rat \<Rightarrow> Item \<Rightarrow> Cell" where
  "DynamicItem hs idx it =
     \<lparr>cell_key = item_id it, cell_idx = idx,
      cell_top = (if idx = 0 then Num 0 else getCumulativeHeight hs idx)\<rparr>"

fun render_cells :: "Item list \<Rightarrow> jsval list \<Rightarrow> rat list \<Rightarrow> js_error + Cell list" where
  "render_cells d hs [] = Inr []"
| "render_cells d hs (idx # rest) =
     (if is_index idx (length d)
      then (case render_cells d hs rest of
              Inl e \<Rightarrow> Inl e
            | Inr cs \<Rightarrow> Inr (DynamicItem hs idx (d ! nat \<lfloor>idx\<rfloor>) # cs))
      else Inl TypeError)"

definition render :: "VirtualListProps \<Rightarrow> VirtualListState \<Rightarrow> js_error + View" where
  "render p s =
     (case render_cells (data p) (itemHeights s) (renderList s) of
        Inl e \<Rightarrow> Inl e
      | Inr cs \<Rightarrow> Inr \<lparr>spacer = height s, cells = cs\<rparr>)"

text \<open>Constructing the component: mount, then the render that follows the effects.\<close>

definition VirtualList :: "VirtualListProps \<Rightarrow> js_error + View" where
  "VirtualList p = render p (mount p)"

section \<open>The start index as the specification words it\<close>

text \<open>
  Section 4.3, step 1 of the specification: the smallest index \<open>s\<close> such that
  \<open>cumulativeHeight(s+1) > scrollTop\<close>, then minus \<open>bufferCount\<close>, clamped to \<open>\<ge> 0\<close>.
  \<open>None\<close> when no index of the store satisfies the condition.
\<close>

definition spec_startIndex :: "jsval list \<Rightarrow> rat \<Rightarrow> rat \<Rightarrow> rat option" where
  "spec_startIndex hs bufferCnt scrollTp =
     map_option (\<lambda>s. max 0 (of_nat s - bufferCnt))
       (List.find (\<lambda>s. js_gt (getCumulativeHeight hs (of_nat s + 1)) (Num scrollTp))
          [0..<length hs])"

section \<open>Example inputs\<close>

definition three_items :: "Item list" where
  "three_items =
     [\<lparr>item_id = ''item-0'', item_content = ''a''\<rparr>,
      \<lparr>item_id = ''item-1'', item_content = ''b''\<rparr>,
      \<lparr>item_id = ''item-2'', item_content = ''c''\<rparr>]"

definition example_props :: VirtualListProps where
  "example_props = \<lparr>data = three_items, containerHeight = 100, estimatedItemHeight = 50,
                     bufferCount = 0\<rparr>"



section \<open>JavaScript comparisons and the array\<close>

lemma js_le_trans: "js_le a b \<Longrightarrow> js_le b c \<Longrightarrow> js_le a c"
  by (cases a; cases b; cases c) simp_all

lemma js_le_lt_trans: "js_le a b \<Longrightarrow> js_lt b c \<Longrightarrow> js_lt a c"
  by (cases a; cases b; cases c) simp_all

lemma js_gt_imp_le: "js_gt h (Num 0) \<Longrightarrow> js_le (Num 0) h"
  by (cases h) simp_all

lemma is_index_of_nat: "is_index (of_nat k) n \<longleftrightarrow> k < n"
  by (simp add: is_index_def)

lemma is_index_cases:
  assumes "is_index i n"
  obtains k where "i = of_nat k" and "k < n" and "nat \<lfloor>i\<rfloor> = k"
proof -
  from assms have eq: "i = of_int \<lfloor>i\<rfloor>" and nn: "0 \<le> i" and lt: "i < of_nat n"
    by (simp_all add: is_index_def)
  from nn have fl: "0 \<le> \<lfloor>i\<rfloor>" by simp
  then have "i = of_nat (nat \<lfloor>i\<rfloor>)" using eq
    by (metis of_int_of_nat_eq int_nat_eq)
  moreover from this lt have "nat \<lfloor>i\<rfloor> < n" by (metis of_nat_less_iff)
  ultimately show ?thesis using that by blast
qed

lemma array_get_of_nat:
  "array_get xs (of_nat k) = (if k < length xs then xs ! k else Undefined)"
  by (simp add: array_get_def is_index_of_nat)

lemma array_get_in_set: "k < length hs \<Longrightarrow> array_get hs (of_nat k) \<in> set hs"
  by (simp add: array_get_of_nat)

lemma array_get_array_set_same: "array_get (array_set xs i v) (of_nat i) = v"
  by (simp add: array_get_of_nat array_set_def nth_append)

lemma length_array_set_in_range: "i < length xs \<Longrightarrow> length (array_set xs i v) = length xs"
  by (simp add: array_set_def)

lemma array_get_array_set_other:
  assumes "i < length xs" and "j \<noteq> of_nat i"
  shows "array_get (array_set xs i v) j = array_get xs j"
proof (cases "is_index j (length xs)")
  case True
  then obtain k where k: "j = of_nat k" "k < length xs" by (rule is_index_cases)
  with assms have "k \<noteq> i" by auto
  with assms(1) k show ?thesis
    by (simp add: array_get_of_nat array_set_def)
next
  case False
  with assms(1) show ?thesis
    by (simp add: array_get_def length_array_set_in_range)
qed

section \<open>Cumulative heights\<close>

text \<open>One more index adds one more entry; this is the recurrence every later proof uses.\<close>

lemma getCumulativeHeight_loop_Suc:
  "idx \<le> k \<Longrightarrow>
     getCumulativeHeight_loop hs (of_nat (Suc k)) h idx
       = js_add (getCumulativeHeight_loop hs (of_nat k) h idx) (array_get hs (of_nat k))"
proof (induction "k - idx" arbitrary: idx h)
  case 0
  then have "idx = k" by simp
  then show ?case
    by (simp add: getCumulativeHeight_loop.simps [of hs _ _ k]
        getCumulativeHeight_loop.simps [of hs _ _ "Suc k"])
next
  case (Suc d)
  then have lt: "idx < k" and d: "d = k - Suc idx" and le: "Suc idx \<le> k" by simp_all
  from Suc.hyps(1) [OF d le] lt show ?case
    by (simp add: getCumulativeHeight_loop.simps [of hs _ h idx])
qed

lemma getCumulativeHeight_0: "index \<le> 0 \<Longrightarrow> getCumulativeHeight hs index = Num 0"
  by (simp add: getCumulativeHeight_def getCumulativeHeight_loop.simps [of hs index "Num 0" 0])

lemma getCumulativeHeight_Suc:
  "getCumulativeHeight hs (of_nat (Suc k))
     = js_add (getCumulativeHeight hs (of_nat k)) (array_get hs (of_nat k))"
  unfolding getCumulativeHeight_def by (rule getCumulativeHeight_loop_Suc) simp

text \<open>A non-integer index counts as the next integer: the loop runs while \<open>idx < index\<close>.\<close>

lemma getCumulativeHeight_loop_ceiling:
  "getCumulativeHeight_loop hs index h idx
     = getCumulativeHeight_loop hs (of_nat (nat \<lceil>index\<rceil>)) h idx"
proof (induction hs index h idx rule: getCumulativeHeight_loop.induct)
  case (1 hs index h idx)
  have c: "(of_nat idx < index) = ((of_nat idx :: rat) < of_nat (nat \<lceil>index\<rceil>))"
  proof -
    have "(of_nat idx < index) = (int idx < \<lceil>index\<rceil>)"
      by (simp add: less_ceiling_iff)
    also have "\<dots> = (idx < nat \<lceil>index\<rceil>)" by (simp add: zless_nat_eq_int_zless)
    also have "\<dots> = ((of_nat idx :: rat) < of_nat (nat \<lceil>index\<rceil>))" by simp
    finally show ?thesis .
  qed
  show ?case
  proof (cases "of_nat idx < index")
    case True
    with 1 c show ?thesis
      by (simp add: getCumulativeHeight_loop.simps [of hs _ h idx])
  next
    case False
    with c show ?thesis
      by (simp add: getCumulativeHeight_loop.simps [of hs _ h idx])
  qed
qed

lemma getCumulativeHeight_ceiling:
  "getCumulativeHeight hs index = getCumulativeHeight hs (of_nat (nat \<lceil>index\<rceil>))"
  unfolding getCumulativeHeight_def by (rule getCumulativeHeight_loop_ceiling)

lemma getCumulativeHeight_past_end_nat:
  "getCumulativeHeight hs (of_nat (length hs + Suc d)) = NaN"
proof (induction d)
  case 0
  have "array_get hs (of_nat (length hs)) = Undefined" by (simp add: array_get_of_nat)
  then show ?case
    using getCumulativeHeight_Suc [of hs "length hs"]
    by (cases "getCumulativeHeight hs (of_nat (length hs))") simp_all
next
  case (Suc d)
  show ?case
    using getCumulativeHeight_Suc [of hs "length hs + Suc d"] Suc by simp
qed

lemma getCumulativeHeight_past_end:
  assumes "of_nat (length hs) < index"
  shows "getCumulativeHeight hs index = NaN"
proof -
  from assms have "int (length hs) < \<lceil>index\<rceil>" by (simp add: less_ceiling_iff)
  then have "nat \<lceil>index\<rceil> = length hs + Suc (nat \<lceil>index\<rceil> - length hs - 1)" by simp
  then show ?thesis
    using getCumulativeHeight_past_end_nat [of hs "nat \<lceil>index\<rceil> - length hs - 1"]
      getCumulativeHeight_ceiling [of hs index]
    by simp
qed

lemma getCumulativeHeight_nonneg:
  "\<forall>h\<in>set hs. js_le (Num 0) h \<Longrightarrow> k \<le> length hs \<Longrightarrow>
     js_le (Num 0) (getCumulativeHeight hs (of_nat k))"
proof (induction k)
  case 0
  show ?case by (simp add: getCumulativeHeight_0)
next
  case (Suc k)
  then have a: "js_le (Num 0) (getCumulativeHeight hs (of_nat k))" by simp
  from Suc.prems have b: "js_le (Num 0) (array_get hs (of_nat k))"
    using array_get_in_set [of k hs] by simp
  from a b show ?case
    unfolding getCumulativeHeight_Suc
    by (cases "getCumulativeHeight hs (of_nat k)"; cases "array_get hs (of_nat k)") simp_all
qed

lemma getCumulativeHeight_step_mono:
  assumes "\<forall>h\<in>set hs. js_le (Num 0) h" and "k < length hs"
  shows "js_le (getCumulativeHeight hs (of_nat k)) (getCumulativeHeight hs (of_nat (Suc k)))"
proof -
  from assms have a: "js_le (Num 0) (getCumulativeHeight hs (of_nat k))"
    by (simp add: getCumulativeHeight_nonneg)
  from assms have b: "js_le (Num 0) (array_get hs (of_nat k))"
    using array_get_in_set [of k hs] by simp
  from a b show ?thesis
    unfolding getCumulativeHeight_Suc
    by (cases "getCumulativeHeight hs (of_nat k)"; cases "array_get hs (of_nat k)") simp_all
qed

lemma getCumulativeHeight_mono_nat:
  assumes nn: "\<forall>h\<in>set hs. js_le (Num 0) h"
  shows "j \<le> k \<Longrightarrow> k \<le> length hs \<Longrightarrow>
     js_le (getCumulativeHeight hs (of_nat j)) (getCumulativeHeight hs (of_nat k))"
proof (induction k)
  case 0
  then show ?case by (simp add: getCumulativeHeight_0)
next
  case (Suc k)
  show ?case
  proof (cases "j = Suc k")
    case True
    have "js_le (Num 0) (getCumulativeHeight hs (of_nat (Suc k)))"
      using nn Suc.prems(2) by (rule getCumulativeHeight_nonneg)
    then show ?thesis
      unfolding True by (cases "getCumulativeHeight hs (of_nat (Suc k))") simp_all
  next
    case False
    with Suc.prems have "j \<le> k" "k \<le> length hs" "k < length hs" by simp_all
    then show ?thesis
      using Suc.IH getCumulativeHeight_step_mono [OF nn, of k] js_le_trans by blast
  qed
qed

lemma getCumulativeHeight_mono:
  assumes nn: "\<forall>h\<in>set hs. js_le (Num 0) h"
    and jk: "j \<le> k" and kn: "k \<le> of_nat (length hs)"
  shows "js_le (getCumulativeHeight hs j) (getCumulativeHeight hs k)"
proof -
  from jk have "\<lceil>j\<rceil> \<le> \<lceil>k\<rceil>" by (rule ceiling_mono)
  then have a: "nat \<lceil>j\<rceil> \<le> nat \<lceil>k\<rceil>" by simp
  from kn have "\<lceil>k\<rceil> \<le> int (length hs)" by (simp add: ceiling_le_iff)
  then have b: "nat \<lceil>k\<rceil> \<le> length hs" by simp
  from getCumulativeHeight_mono_nat [OF nn a b] show ?thesis
    using getCumulativeHeight_ceiling [of hs j] getCumulativeHeight_ceiling [of hs k] by simp
qed

section \<open>The start-index loop\<close>

text \<open>After \<open>n\<close> iterations the loop state is \<open>(cumulativeHeight n, n)\<close>.\<close>

lemma findStartIndex_body_funpow:
  "(findStartIndex_body hs ^^ n) (Num 0, 0) = (getCumulativeHeight hs (of_nat n), n)"
proof (induction n)
  case 0
  show ?case by (simp add: getCumulativeHeight_0)
next
  case (Suc n)
  then show ?case by (simp add: getCumulativeHeight_Suc del: of_nat_Suc)
qed

lemma findStartIndex_loop_funpow:
  "\<not> findStartIndex_cond sp ((findStartIndex_body hs ^^ n) st) \<Longrightarrow>
   (\<forall>m<n. findStartIndex_cond sp ((findStartIndex_body hs ^^ m) st)) \<Longrightarrow>
   findStartIndex_loop hs sp st = (findStartIndex_body hs ^^ n) st"
proof (induction n arbitrary: st)
  case 0
  then show ?case by (simp add: findStartIndex_loop.simps [of hs sp st])
next
  case (Suc n)
  from Suc.prems(2) have c0: "findStartIndex_cond sp st" by force
  have a: "\<not> findStartIndex_cond sp ((findStartIndex_body hs ^^ n) (findStartIndex_body hs st))"
    using Suc.prems(1) by (simp add: funpow_swap1)
  have b: "\<forall>m<n. findStartIndex_cond sp ((findStartIndex_body hs ^^ m) (findStartIndex_body hs st))"
  proof (intro allI impI)
    fix m assume "m < n"
    then have "Suc m < Suc n" by simp
    with Suc.prems(2) have "findStartIndex_cond sp ((findStartIndex_body hs ^^ Suc m) st)" by blast
    then show "findStartIndex_cond sp ((findStartIndex_body hs ^^ m) (findStartIndex_body hs st))"
      by (simp add: funpow_swap1)
  qed
  from Suc.IH [OF a b] c0 show ?case
    by (simp add: funpow_swap1 findStartIndex_loop.simps [of hs sp st])
qed

text \<open>The loop stops at the first \<open>n\<close> whose cumulative height is not below the offset.\<close>

lemma findStartIndex_loop_iterations:
  "\<exists>n\<le>length hs + 1.
      findStartIndex_loop hs sp (Num 0, 0) = (getCumulativeHeight hs (of_nat n), n)
    \<and> \<not> js_lt (getCumulativeHeight hs (of_nat n)) (Num sp)
    \<and> (\<forall>m<n. js_lt (getCumulativeHeight hs (of_nat m)) (Num sp))"
proof -
  let ?P = "\<lambda>n. \<not> js_lt (getCumulativeHeight hs (of_nat n)) (Num sp)"
  have stop: "?P (length hs + 1)"
    by (simp add: getCumulativeHeight_past_end)
  define n where "n = (LEAST n. ?P n)"
  have Pn: "?P n" unfolding n_def using stop by (rule LeastI)
  have le: "n \<le> length hs + 1" unfolding n_def using stop by (rule Least_le)
  have before: "\<forall>m<n. js_lt (getCumulativeHeight hs (of_nat m)) (Num sp)"
    unfolding n_def using not_less_Least by blast
  have "findStartIndex_loop hs sp (Num 0, 0) = (findStartIndex_body hs ^^ n) (Num 0, 0)"
    by (rule findStartIndex_loop_funpow) (simp_all add: findStartIndex_body_funpow Pn before)
  with Pn le before show ?thesis
    by (auto simp: findStartIndex_body_funpow)
qed

lemma findStartIndex_loop_past_total:
  assumes nn: "\<forall>h\<in>set hs. js_le (Num 0) h"
    and big: "js_lt (getCumulativeHeight hs (of_nat (length hs))) (Num sp)"
  shows "findStartIndex_loop hs sp (Num 0, 0) = (NaN, length hs + 1)"
proof -
  have before: "\<forall>m<length hs + 1. js_lt (getCumulativeHeight hs (of_nat m)) (Num sp)"
  proof (intro allI impI)
    fix m assume "m < length hs + 1"
    then have "m \<le> length hs" by simp
    from getCumulativeHeight_mono_nat [OF nn this] big
    show "js_lt (getCumulativeHeight hs (of_nat m)) (Num sp)"
      using js_le_lt_trans by blast
  qed
  have "findStartIndex_loop hs sp (Num 0, 0)
          = (findStartIndex_body hs ^^ (length hs + 1)) (Num 0, 0)"
  proof (rule findStartIndex_loop_funpow)
    show "\<not> findStartIndex_cond sp ((findStartIndex_body hs ^^ (length hs + 1)) (Num 0, 0))"
      unfolding findStartIndex_body_funpow by (simp add: getCumulativeHeight_past_end)
    show "\<forall>m<length hs + 1. findStartIndex_cond sp ((findStartIndex_body hs ^^ m) (Num 0, 0))"
      unfolding findStartIndex_body_funpow using before by simp
  qed
  then show ?thesis
    by (simp add: findStartIndex_body_funpow getCumulativeHeight_past_end del: funpow.simps)
qed

lemma findStartIndex_least:
  "findStartIndex hs b sp
     = max 0 (of_nat (LEAST n. \<not> js_lt (getCumulativeHeight hs (of_nat n)) (Num sp)) - b)"
proof -
  from findStartIndex_loop_iterations [of hs sp]
  obtain n where n:
      "findStartIndex_loop hs sp (Num 0, 0) = (getCumulativeHeight hs (of_nat n), n)"
      "\<not> js_lt (getCumulativeHeight hs (of_nat n)) (Num sp)"
      "\<forall>m<n. js_lt (getCumulativeHeight hs (of_nat m)) (Num sp)"
    by blast
  have "(LEAST n. \<not> js_lt (getCumulativeHeight hs (of_nat n)) (Num sp)) = n"
  proof (rule Least_equality)
    show "\<not> js_lt (getCumulativeHeight hs (of_nat n)) (Num sp)" by (rule n(2))
  next
    fix y assume "\<not> js_lt (getCumulativeHeight hs (of_nat y)) (Num sp)"
    with n(3) show "n \<le> y" by (meson not_le_imp_less)
  qed
  with n(1) show ?thesis by (simp add: findStartIndex_def)
qed

section \<open>The end-index loop and the resolved window\<close>

text \<open>
  When the loop runs at all its result is an index it visited; otherwise it is the
  initial \<open>endIndex\<close>.
\<close>

lemma findEndIndex_loop_range:
  "(i < of_nat n \<longrightarrow> i \<le> findEndIndex_loop hs n limit i tot e
                   \<and> findEndIndex_loop hs n limit i tot e < of_nat n)
   \<and> (\<not> i < of_nat n \<longrightarrow> findEndIndex_loop hs n limit i tot e = e)"
proof (induction hs n limit i tot e rule: findEndIndex_loop.induct)
  case (1 hs n limit i totalHeight endIndex)
  let ?t = "js_add totalHeight (array_get hs i)"
  show ?case
  proof (cases "i < of_nat n")
    case False
    then show ?thesis
      by (simp add: findEndIndex_loop.simps [of hs n limit i totalHeight endIndex])
  next
    case True
    show ?thesis
    proof (cases "js_gt ?t (Num limit)")
      case brk: True
      with True show ?thesis
        by (simp add: findEndIndex_loop.simps [of hs n limit i totalHeight endIndex])
    next
      case cont: False
      define r where "r = findEndIndex_loop hs n limit (i + 1) ?t i"
      from 1 [OF True refl cont]
      have ih: "(i + 1 < of_nat n \<longrightarrow> i + 1 \<le> r \<and> r < of_nat n) \<and> (\<not> i + 1 < of_nat n \<longrightarrow> r = i)"
        unfolding r_def .
      have unfold: "findEndIndex_loop hs n limit i totalHeight endIndex = r"
        unfolding r_def using True cont
        by (simp add: findEndIndex_loop.simps [of hs n limit i totalHeight endIndex])
      from ih True have "i \<le> r \<and> r < of_nat n" by (cases "i + 1 < of_nat n") simp_all
      with True show ?thesis unfolding unfold by simp
    qed
  qed
qed

lemma findEndIndex_loop_ge_start:
  "startIndex \<le> findEndIndex_loop hs n limit startIndex tot startIndex"
  using findEndIndex_loop_range [of startIndex n hs limit tot startIndex]
  by (cases "startIndex < of_nat n") auto


lemma findStartIndex_nonneg: "0 \<le> findStartIndex hs b sp"
  by (simp add: findStartIndex_def)

lemma findStartIndex_le:
  "findStartIndex hs b sp \<le> max 0 (of_nat (length hs) + 1 - b)"
  using findStartIndex_loop_iterations [of hs sp]
  by (auto simp: findStartIndex_def)

text \<open>
  With a buffer of at least 2 the window is well formed at every scroll offset, and past
  the total height the end index is the last index for every non-negative buffer.
\<close>

lemma window_valid_buffer_ge_2:
  assumes len: "length hs = length (data p)" and ne: "data p \<noteq> []"
    and b: "2 \<le> bufferCount p"
  shows "0 \<le> findStartIndex hs (bufferCount p) sp
       \<and> findStartIndex hs (bufferCount p) sp
           \<le> findEndIndex p hs (findStartIndex hs (bufferCount p) sp)
       \<and> findEndIndex p hs (findStartIndex hs (bufferCount p) sp) \<le> of_nat (length (data p)) - 1"
proof -
  define start where "start = findStartIndex hs (bufferCount p) sp"
  define r where "r = findEndIndex_loop hs (length (data p))
            (containerHeight p + bufferCount p * estimatedItemHeight p) start (Num 0) start"
  from ne have n1: "(1::rat) \<le> of_nat (length (data p))" by (cases "data p") simp_all
  have s0: "0 \<le> start" unfolding start_def by (rule findStartIndex_nonneg)
  have "start \<le> max 0 (of_nat (length hs) + 1 - bufferCount p)"
    unfolding start_def by (rule findStartIndex_le)
  with b len n1 have s1: "start \<le> of_nat (length (data p)) - 1" by simp
  have r: "start \<le> r" unfolding r_def by (rule findEndIndex_loop_ge_start)
  have e: "findEndIndex p hs start = min (of_nat (length (data p)) - 1) (r + bufferCount p)"
    by (simp add: findEndIndex_def r_def)
  from s0 s1 r b show ?thesis unfolding start_def [symmetric] e by simp
qed

lemma window_past_total:
  assumes nn: "\<forall>h\<in>set hs. js_le (Num 0) h"
    and len: "length hs = length (data p)"
    and b: "0 \<le> bufferCount p"
    and big: "js_lt (getCumulativeHeight hs (of_nat (length hs))) (Num sp)"
  shows "findStartIndex hs (bufferCount p) sp = max 0 (of_nat (length (data p)) + 1 - bufferCount p)
       \<and> findEndIndex p hs (findStartIndex hs (bufferCount p) sp) = of_nat (length (data p)) - 1"
proof -
  define start where "start = findStartIndex hs (bufferCount p) sp"
  define r where "r = findEndIndex_loop hs (length (data p))
            (containerHeight p + bufferCount p * estimatedItemHeight p) start (Num 0) start"
  have s: "start = max 0 (of_nat (length (data p)) + 1 - bufferCount p)"
    unfolding start_def findStartIndex_def findStartIndex_loop_past_total [OF nn big]
    by (simp add: len)
  have r: "start \<le> r" unfolding r_def by (rule findEndIndex_loop_ge_start)
  have e: "findEndIndex p hs start = min (of_nat (length (data p)) - 1) (r + bufferCount p)"
    by (simp add: findEndIndex_def r_def)
  from s r b have "findEndIndex p hs start = of_nat (length (data p)) - 1"
    unfolding e by simp
  with s show ?thesis unfolding start_def by simp
qed

section \<open>Rendered indices\<close>

text \<open>
  The indices stored by the window effect: \<open>startIndex + k\<close> for every natural \<open>k\<close> with
  \<open>startIndex + k + 1 \<le> endIndex\<close>.
\<close>

lemma set_array_from: "set (array_from n f) = {f (of_nat k) | k. of_nat k + 1 \<le> n}"
proof -
  have "(k < nat \<lfloor>n\<rfloor>) = (of_nat k + 1 \<le> n)" for k
  proof -
    have "(k < nat \<lfloor>n\<rfloor>) = (int k + 1 \<le> \<lfloor>n\<rfloor>)" by auto
    also have "\<dots> = (of_int (int k + 1) \<le> n)" by (simp only: le_floor_iff)
    also have "\<dots> = (of_nat k + 1 \<le> n)" by simp
    finally show ?thesis .
  qed
  then show ?thesis by (auto simp: array_from_def)
qed

lemma renderList_renderListEffect:
  "set (renderList (renderListEffect p s))
     = {of_nat k + findStartIndex (itemHeights s) (bufferCount p) (scrollTop s) | k.
          of_nat k + findStartIndex (itemHeights s) (bufferCount p) (scrollTop s) + 1
            \<le> findEndIndex p (itemHeights s)
                 (findStartIndex (itemHeights s) (bufferCount p) (scrollTop s))}"
  by (auto simp: renderListEffect_def Let_def set_array_from algebra_simps)


lemma endIndex_not_rendered:
  "findEndIndex p (itemHeights s) (findStartIndex (itemHeights s) (bufferCount p) (scrollTop s))
     \<notin> set (renderList (renderListEffect p s))"
  unfolding renderList_renderListEffect by auto






section \<open>Sequences of measurement reports\<close>


lemma renderList_updateH_seq: "renderList (updateH_seq s ws) = renderList s"
  by (induction s ws rule: updateH_seq.induct) (simp_all add: updateH_def)

lemma height_updateH_seq: "height (updateH_seq s ws) = height s"
  by (induction s ws rule: updateH_seq.induct) (simp_all add: updateH_def)

lemma scrollTop_updateH_seq: "scrollTop (updateH_seq s ws) = scrollTop s"
  by (induction s ws rule: updateH_seq.induct) (simp_all add: updateH_def)

lemma updateH_seq_invariant:
  "\<forall>x\<in>set (itemHeights s). P x \<Longrightarrow>
   \<forall>(i, v)\<in>set ws. i < length (itemHeights s) \<and> P (Num v) \<Longrightarrow>
     length (itemHeights (updateH_seq s ws)) = length (itemHeights s)
     \<and> (\<forall>x\<in>set (itemHeights (updateH_seq s ws)). P x)"
proof (induction s ws rule: updateH_seq.induct)
  case (1 s)
  then show ?case by simp
next
  case (2 s idx h ws)
  from "2.prems" have idx: "idx < length (itemHeights s)" and Ph: "P (Num h)" by auto
  have len: "length (itemHeights (updateH s idx h)) = length (itemHeights s)"
    using idx by (simp add: updateH_def array_set_def)
  have "set (itemHeights (updateH s idx h)) \<subseteq> insert (Num h) (set (itemHeights s))"
    using idx by (simp add: updateH_def array_set_def set_update_subset_insert)
  with "2.prems"(1) Ph have all: "\<forall>x\<in>set (itemHeights (updateH s idx h)). P x" by auto
  from "2.prems"(2) len
  have ws: "\<forall>(i, v)\<in>set ws. i < length (itemHeights (updateH s idx h)) \<and> P (Num v)" by auto
  from "2.IH" [OF all ws] len show ?case by simp
qed

section \<open>The claims\<close>

subsection \<open>C1: the spacer height\<close>

text \<open>
  C1, counterexample. Three items estimated at 50 are mounted and item 0 then reports a
  measured height of 80. The write leaves the spacer height as it was, and the spacer
  height differs from the sum of the three heights now in the store.
\<close>

theorem spacer_stale_counterexample:
  "height (updateH (mount example_props) 0 80) = height (mount example_props)
   \<and> height (updateH (mount example_props) 0 80)
       \<noteq> getCumulativeHeight (itemHeights (updateH (mount example_props) 0 80)) 3"
  by code_simp

text \<open>
  C1, as the code has it. The spacer height is written by the height effect only: after
  any sequence of \<open>updateH\<close> writes it still has the value the last height effect gave
  it, a scroll event does not change it either, and for empty data that value is 0.
\<close>

theorem spacer_only_set_by_heightEffect:
  "height (updateH_seq (heightEffect p s) ws) = height (heightEffect p s)
   \<and> height (handleScroll p s t) = height s
   \<and> (data p = [] \<longrightarrow> height (updateH_seq (heightEffect p s) ws) = Num 0)"
  by (simp add: height_updateH_seq handleScroll_def renderListEffect_def Let_def heightEffect_def)

theorem spacer_only_set_by_heightEffect_witness:
  "height (updateH_seq (heightEffect \<lparr>data = [], containerHeight = 100, estimatedItemHeight = 50,
       bufferCount = 5\<rparr> initialState) []) = Num 0"
  using spacer_only_set_by_heightEffect [of "\<lparr>data = [], containerHeight = 100,
       estimatedItemHeight = 50, bufferCount = 5\<rparr>" initialState "[]"]
  by simp

subsection \<open>C2: the start index\<close>

text \<open>
  C2. With three heights of 50, no buffer and a scroll offset of 10, item 0 is the first
  item whose bottom edge (50) lies past the offset, so the specification's start index
  is 0; \<open>findStartIndex\<close> returns 1.
\<close>

theorem findStartIndex_skips_crossing_item:
  "findStartIndex [Num 50, Num 50, Num 50] 0 10 = 1
   \<and> spec_startIndex [Num 50, Num 50, Num 50] 0 10 = Some 0"
  by code_simp

subsection \<open>C3: the rendered range\<close>

text \<open>
  C3. Three items estimated at 50 in a container of height 100 with no buffer, at scroll
  offset 0: the window resolves to start index 0 and end index 2, the stored render list
  is \<open>[0, 1]\<close>, and the cells rendered are those of items 0 and 1. The cell of the end
  index is not rendered.
\<close>

theorem endIndex_not_rendered_example:
  "findStartIndex (itemHeights (mount example_props)) 0 0 = 0
   \<and> findEndIndex example_props (itemHeights (mount example_props)) 0 = 2
   \<and> renderList (mount example_props) = [0, 1]
   \<and> VirtualList example_props
       = Inr \<lparr>spacer = Num 100,
              cells = [\<lparr>cell_key = ''item-0'', cell_idx = 0, cell_top = Num 0\<rparr>,
                       \<lparr>cell_key = ''item-1'', cell_idx = 1, cell_top = Num 50\<rparr>]\<rparr>"
  by code_simp

subsection \<open>C4: the window stays in range\<close>

text \<open>
  C4. Three items of height 50 with no buffer, scrolled to offset 120 (inside the last
  item): the start index is 3, which is not an index of the data, and the end index is 2,
  below the start index; nothing is rendered.
\<close>

theorem window_out_of_range_example:
  "scrollTop (handleScroll example_props (mount example_props) 120) = 120
   \<and> findStartIndex (itemHeights (mount example_props)) (bufferCount example_props) 120 = 3
   \<and> findEndIndex example_props (itemHeights (mount example_props)) 3 = 2
   \<and> renderList (handleScroll example_props (mount example_props) 120) = []"
  by code_simp

subsection \<open>C5: what a height write stores\<close>

text \<open>
  C5, counterexample. After mounting three items estimated at 50, a measured height of 0
  for item 0 is stored as 0: entry 0 of the store is then not positive.
\<close>

theorem updateH_zero_counterexample:
  "itemHeights (updateH (mount example_props) 0 0) = [Num 0, Num 50, Num 50]
   \<and> \<not> js_gt (array_get (itemHeights (updateH (mount example_props) 0 0)) 0) (Num 0)"
  by code_simp

text \<open>
  C5, as the code has it. \<open>updateH\<close> stores the reported height exactly as given, whatever
  its sign. Hence every entry is positive after a sequence of writes when every entry was
  positive before and every write is inside the store with a positive height.
\<close>

theorem updateH_stores_as_given:
  "array_get (itemHeights (updateH s idx h)) (of_nat idx) = Num h
   \<and> ((\<forall>x\<in>set (itemHeights s). js_gt x (Num 0)) \<longrightarrow>
        (\<forall>(i, v)\<in>set ws. i < length (itemHeights s) \<and> 0 < v) \<longrightarrow>
        (\<forall>x\<in>set (itemHeights (updateH_seq s ws)). js_gt x (Num 0)))"
proof -
  have "array_get (itemHeights (updateH s idx h)) (of_nat idx) = Num h"
    by (simp add: updateH_def array_get_array_set_same)
  moreover have "\<forall>x\<in>set (itemHeights (updateH_seq s ws)). js_gt x (Num 0)"
    if a: "\<forall>x\<in>set (itemHeights s). js_gt x (Num 0)"
      and b: "\<forall>(i, v)\<in>set ws. i < length (itemHeights s) \<and> 0 < v"
  proof -
    from b have "\<forall>(i, v)\<in>set ws. i < length (itemHeights s) \<and> js_gt (Num v) (Num 0)"
      by auto
    from updateH_seq_invariant [of s "\<lambda>x. js_gt x (Num 0)" ws, OF a this]
    show ?thesis by simp
  qed
  ultimately show ?thesis by blast
qed

theorem updateH_stores_as_given_witness:
  "list_all (\<lambda>x. js_gt x (Num 0))
     (itemHeights (updateH_seq (mount example_props) [(0, 66), (1, 84)]))"
proof -
  have m: "itemHeights (mount example_props) = [Num 50, Num 50, Num 50]"
    by code_simp
  have a: "\<forall>x\<in>set (itemHeights (mount example_props)). js_gt x (Num 0)"
    unfolding m by simp
  have b: "\<forall>(i, v)\<in>set [(0, 66), (1, 84)].
             i < length (itemHeights (mount example_props)) \<and> (0::rat) < v"
    unfolding m by simp
  from updateH_stores_as_given [of "mount example_props" 0 0 "[(0, 66), (1, 84)]"] a b
  show ?thesis unfolding list_all_iff by blast
qed

subsection \<open>C6: monotonicity of the cumulative height\<close>

text \<open>
  C6, counterexample. After mounting three items estimated at 50, a reported height of
  -60 for item 1 makes the cumulative height fall from 50 at index 1 to -10 at index 2.
\<close>

theorem cumulative_not_monotone_counterexample:
  "\<not> js_le (getCumulativeHeight (itemHeights (updateH (mount example_props) 1 (- 60))) 1)
            (getCumulativeHeight (itemHeights (updateH (mount example_props) 1 (- 60))) 2)"
  by code_simp

text \<open>
  C6, as the code has it. The cumulative height at index 0 is 0 after any sequence of
  writes. It is non-decreasing in its index, up to the length of the store, when the
  entries of the store were non-negative numbers and every write is inside the store with
  a non-negative height.
\<close>

theorem cumulative_monotone_nonneg:
  "getCumulativeHeight (itemHeights (updateH_seq s ws)) 0 = Num 0
   \<and> ((\<forall>x\<in>set (itemHeights s). js_le (Num 0) x) \<longrightarrow>
        (\<forall>(i, v)\<in>set ws. i < length (itemHeights s) \<and> 0 \<le> v) \<longrightarrow>
        j \<le> k \<longrightarrow> k \<le> of_nat (length (itemHeights s)) \<longrightarrow>
        js_le (getCumulativeHeight (itemHeights (updateH_seq s ws)) j)
              (getCumulativeHeight (itemHeights (updateH_seq s ws)) k))"
proof -
  have "js_le (getCumulativeHeight (itemHeights (updateH_seq s ws)) j)
              (getCumulativeHeight (itemHeights (updateH_seq s ws)) k)"
    if a: "\<forall>x\<in>set (itemHeights s). js_le (Num 0) x"
      and b: "\<forall>(i, v)\<in>set ws. i < length (itemHeights s) \<and> 0 \<le> v"
      and jk: "j \<le> k" and kn: "k \<le> of_nat (length (itemHeights s))"
  proof -
    from b have "\<forall>(i, v)\<in>set ws. i < length (itemHeights s) \<and> js_le (Num 0) (Num v)"
      by auto
    from updateH_seq_invariant [of s "\<lambda>x. js_le (Num 0) x" ws, OF a this]
    have len: "length (itemHeights (updateH_seq s ws)) = length (itemHeights s)"
      and nn: "\<forall>x\<in>set (itemHeights (updateH_seq s ws)). js_le (Num 0) x"
      by simp_all
    from kn len have "k \<le> of_nat (length (itemHeights (updateH_seq s ws)))" by simp
    with nn jk show ?thesis by (rule getCumulativeHeight_mono)
  qed
  then show ?thesis by (simp add: getCumulativeHeight_0)
qed

theorem cumulative_monotone_nonneg_witness:
  "js_le (getCumulativeHeight (itemHeights (updateH_seq (mount example_props) [(0, 80), (2, 0)])) 1)
         (getCumulativeHeight (itemHeights (updateH_seq (mount example_props) [(0, 80), (2, 0)])) 3)"
proof -
  have m: "itemHeights (mount example_props) = [Num 50, Num 50, Num 50]"
    by code_simp
  have a: "\<forall>x\<in>set (itemHeights (mount example_props)). js_le (Num 0) x"
    unfolding m by simp
  have b: "\<forall>(i, v)\<in>set [(0, 80), (2, 0)].
             i < length (itemHeights (mount example_props)) \<and> (0::rat) \<le> v"
    unfolding m by simp
  have c: "(3::rat) \<le> of_nat (length (itemHeights (mount example_props)))"
    unfolding m by simp
  from cumulative_monotone_nonneg [of "mount example_props" "[(0, 80), (2, 0)]" 1 3] a b c
  show ?thesis by simp
qed

subsection \<open>C7: scrolling past the total height\<close>

text \<open>
  C7. Three items of height 50 (total 150) with no buffer, at scroll offset 1000: the end
  index is 2, the last index, but the start index is 4, which is neither an index of the
  data nor at most the end index.
\<close>

theorem window_past_total_example:
  "getCumulativeHeight (itemHeights (mount example_props)) 3 = Num 150
   \<and> findStartIndex (itemHeights (mount example_props)) (bufferCount example_props) 1000 = 4
   \<and> findEndIndex example_props (itemHeights (mount example_props)) 4 = 2"
  by code_simp

subsection \<open>C8: construction parameters\<close>




subsection \<open>C9: termination of the start-index loop\<close>

text \<open>
  C9. For every store of \<open>N\<close> entries and every scroll position the loop of
  \<open>findStartIndex\<close> stops after \<open>n\<close> iterations for some \<open>n \<le> N + 1\<close>: the guard
  holds before each of the first \<open>n\<close> iterations and fails after the \<open>n\<close>-th, and the
  final \<open>idx\<close> is \<open>n\<close>. When the entries are positive and the scroll position
  exceeds the sum of all of them, the guard still holds after \<open>N\<close> iterations, and the
  loop stops after \<open>N + 1\<close> with the accumulated sum \<open>NaN\<close>.
\<close>

theorem findStartIndex_loop_bounded:
  "(\<exists>n\<le>length hs + 1.
        findStartIndex_loop hs sp (Num 0, 0) = (findStartIndex_body hs ^^ n) (Num 0, 0)
      \<and> snd (findStartIndex_loop hs sp (Num 0, 0)) = n
      \<and> \<not> findStartIndex_cond sp ((findStartIndex_body hs ^^ n) (Num 0, 0))
      \<and> (\<forall>m<n. findStartIndex_cond sp ((findStartIndex_body hs ^^ m) (Num 0, 0))))
   \<and> ((\<forall>h\<in>set hs. js_gt h (Num 0)) \<longrightarrow>
        js_lt (getCumulativeHeight hs (of_nat (length hs))) (Num sp) \<longrightarrow>
        findStartIndex_loop hs sp (Num 0, 0) = (NaN, length hs + 1)
        \<and> (\<forall>m\<le>length hs. findStartIndex_cond sp ((findStartIndex_body hs ^^ m) (Num 0, 0))))"
proof -
  from findStartIndex_loop_iterations [of hs sp]
  obtain n where n: "n \<le> length hs + 1"
      "findStartIndex_loop hs sp (Num 0, 0) = (getCumulativeHeight hs (of_nat n), n)"
      "\<not> js_lt (getCumulativeHeight hs (of_nat n)) (Num sp)"
      "\<forall>m<n. js_lt (getCumulativeHeight hs (of_nat m)) (Num sp)"
    by blast
  then have first: "\<exists>n\<le>length hs + 1.
        findStartIndex_loop hs sp (Num 0, 0) = (findStartIndex_body hs ^^ n) (Num 0, 0)
      \<and> snd (findStartIndex_loop hs sp (Num 0, 0)) = n
      \<and> \<not> findStartIndex_cond sp ((findStartIndex_body hs ^^ n) (Num 0, 0))
      \<and> (\<forall>m<n. findStartIndex_cond sp ((findStartIndex_body hs ^^ m) (Num 0, 0)))"
    unfolding findStartIndex_body_funpow by (intro exI [of _ n]) simp
  have second: "findStartIndex_loop hs sp (Num 0, 0) = (NaN, length hs + 1)
        \<and> (\<forall>m\<le>length hs. findStartIndex_cond sp ((findStartIndex_body hs ^^ m) (Num 0, 0)))"
    if pos: "\<forall>h\<in>set hs. js_gt h (Num 0)"
      and big: "js_lt (getCumulativeHeight hs (of_nat (length hs))) (Num sp)"
  proof -
    from pos have nn: "\<forall>h\<in>set hs. js_le (Num 0) h" by (simp add: js_gt_imp_le)
    have "js_lt (getCumulativeHeight hs (of_nat m)) (Num sp)" if "m \<le> length hs" for m
      using getCumulativeHeight_mono_nat [OF nn that le_refl] big js_le_lt_trans by blast
    with findStartIndex_loop_past_total [OF nn big] show ?thesis
      unfolding findStartIndex_body_funpow by simp
  qed
  from first second show ?thesis by blast
qed

theorem findStartIndex_loop_bounded_witness:
  "findStartIndex_loop [Num 50, Num 50] 1000 (Num 0, 0) = (NaN, 3)"
proof -
  have a: "\<forall>h\<in>set [Num 50, Num 50]. js_gt h (Num 0)" by simp
  have b: "js_lt (getCumulativeHeight [Num 50, Num 50] (of_nat (length [Num 50, Num (50::rat)])))
             (Num 1000)"
    by code_simp
  from findStartIndex_loop_bounded [of "[Num 50, Num 50]" 1000] a b
  show ?thesis by simp
qed

subsection \<open>C10: the frame of a height write\<close>

text \<open>
  C10. For an index inside the store, \<open>updateH\<close> changes entry \<open>idx\<close> only: the length
  and every other entry of the store are as before, and the scroll offset, the list of
  rendered indices and the spacer height are not touched.
\<close>

theorem updateH_frame:
  "idx < length (itemHeights s) \<Longrightarrow>
     length (itemHeights (updateH s idx h)) = length (itemHeights s)
     \<and> array_get (itemHeights (updateH s idx h)) (of_nat idx) = Num h
     \<and> (\<forall>j. j \<noteq> of_nat idx \<longrightarrow>
            array_get (itemHeights (updateH s idx h)) j = array_get (itemHeights s) j)
     \<and> scrollTop (updateH s idx h) = scrollTop s
     \<and> renderList (updateH s idx h) = renderList s
     \<and> height (updateH s idx h) = height s"
  by (simp add: updateH_def array_get_array_set_same array_get_array_set_other
      length_array_set_in_range)

theorem updateH_frame_witness:
  "updateH \<lparr>scrollTop = 0, itemHeights = [Num 50, Num 50, Num 50], height = Num 100,
            renderList = [0, 1]\<rparr> 1 80
   = \<lparr>scrollTop = 0, itemHeights = [Num 50, Num 80, Num 50], height = Num 100,
      renderList = [0, 1]\<rparr>
   \<and> length (itemHeights (updateH \<lparr>scrollTop = 0, itemHeights = [Num 50, Num 50, Num 50],
         height = Num 100, renderList = [0, 1]\<rparr> 1 80)) = 3"
  using updateH_frame [of 1 "\<lparr>scrollTop = 0, itemHeights = [Num 50, Num 50, Num 50],
         height = Num 100, renderList = [0, 1]\<rparr>" 80]
  by (simp add: updateH_def array_set_def)

end
